theory Spec2Isabelle
  imports Complex_Main "HOL-Library.Char_ord" "HOL-Library.List_Lexorder" "HOL-Library.Log_Nat"
begin

section \<open>Data model: the pandas frame as app.py uses it\<close>

text \<open>
  app.py holds its data in a pandas DataFrame obtained from \<^verbatim>\<open>pd.read_csv\<close>. A frame is a row
  index and an ordered list of labelled, typed columns. A cell is a number, a string, a boolean, or
  the missing marker (pandas stores NaN for a missing cell in float64 and in object columns, so
  one constructor \<open>NA\<close> stands for it). The numbers in cells and the statistics of
  \<^verbatim>\<open>describe\<close> are idealised as reals: their rounding error and the infinities are outside this
  model. The missing percentage of the profile is computed as float64 computes it, with every
  operation rounded (see \<open>float64_round\<close> below).
\<close>

datatype dtype = Int64 | Float64 | BoolT | Object

datatype cell = NA | Num real | Str string | Bl bool

datatype float64 = NaN | Fin real

record column =
  name :: string
  dtype :: dtype
  cells :: "cell list"

record frame =
  nrows :: nat
  columns :: "column list"

datatype error = KeyError

datatype errors_arg = Raise | Ignore

text \<open>The keys of \<^verbatim>\<open>request.form\<close> that \<^verbatim>\<open>clean\<close> reads.\<close>

record form =
  drop_cols :: "string list"
  has_drop_duplicates :: bool
  has_drop_empty_cols :: bool
  has_fill_numeric_mean :: bool
  has_fill_categorical_mode :: bool

text \<open>
  What \<^verbatim>\<open>read_csv\<close> guarantees of a frame: every column has one cell per row, labels are
  unique, and the cells of a column fit its dtype (int64 holds whole numbers and no missing cell,
  float64 numbers or NaN, bool booleans, object strings, booleans or NaN).
\<close>

fun fits :: "dtype \<Rightarrow> cell \<Rightarrow> bool" where
  "fits Int64 (Num r) = (r = of_int (floor r))"
| "fits Int64 _ = False"
| "fits Float64 (Num r) = True"
| "fits Float64 NA = True"
| "fits Float64 _ = False"
| "fits BoolT (Bl b) = True"
| "fits BoolT _ = False"
| "fits Object (Num r) = False"
| "fits Object _ = True"

definition wf_column :: "nat \<Rightarrow> column \<Rightarrow> bool" where
  "wf_column n c = (length (cells c) = n \<and> list_all (fits (dtype c)) (cells c))"

definition wf_frame :: "frame \<Rightarrow> bool" where
  "wf_frame df = (distinct (map name (columns df)) \<and> list_all (wf_column (nrows df)) (columns df))"

section \<open>float64 arithmetic\<close>

text \<open>
  A float64 operation gives the exact result rounded to the nearest number with a 53-bit
  significand, halves going to the even neighbour. \<open>rint\<close> is that rounding to an integer
  (numpy's \<^verbatim>\<open>rint\<close>); \<open>binade x\<close> is the exponent \<open>e\<close> with \<open>2^e \<le> |x| < 2^(e+1)\<close>;
  \<open>float64_round\<close> rounds a real to float64. The exponent range is not modelled: no percentage
  comes near its ends.
\<close>

definition rint :: "real \<Rightarrow> int" where
  "rint r =
     (let f = floor r; d = r - of_int f
      in if d < 1 / 2 then f else if 1 / 2 < d then f + 1 else if even f then f else f + 1)"

definition binade :: "real \<Rightarrow> int" where
  "binade x =
     (if 1 \<le> \<bar>x\<bar> then bitlen (floor \<bar>x\<bar>) - 1 else - bitlen (ceiling (1 / \<bar>x\<bar>) - 1))"

definition float64_round :: "real \<Rightarrow> real" where
  "float64_round x =
     (if x = 0 then 0
      else let ulp = 2 powi (binade x - 52) in of_int (rint (x / ulp)) * ulp)"

section \<open>The pandas operations app.py calls\<close>

subsection \<open>Series\<close>

definition isna :: "cell list \<Rightarrow> bool list" where
  "isna xs = map (\<lambda>x. x = NA) xs"

definition notna_values :: "cell list \<Rightarrow> cell list" where
  "notna_values xs = filter (\<lambda>x. x \<noteq> NA) xs"

text \<open>\<^verbatim>\<open>Series.count()\<close>: the number of cells that are not missing.\<close>

definition count :: "cell list \<Rightarrow> nat" where
  "count xs = length (notna_values xs)"

text \<open>
  \<^verbatim>\<open>.sum()\<close> and \<^verbatim>\<open>.mean()\<close> of a boolean mask. The mean is the float64 quotient of the sum and
  the length (both are whole numbers that float64 holds exactly); the mean of an empty mask is
  NaN.
\<close>

definition mask_sum :: "bool list \<Rightarrow> nat" where
  "mask_sum bs = length (filter (\<lambda>b. b) bs)"

definition mask_mean :: "bool list \<Rightarrow> float64" where
  "mask_mean bs =
     (if bs = [] then NaN else Fin (float64_round (real (mask_sum bs) / real (length bs))))"

text \<open>
  \<^verbatim>\<open>duplicated()\<close> (keep='first'): a position is marked when an equal value stands at an
  earlier position. pandas looks values up in a hash table in which missing cells are one key,
  as \<open>NA = NA\<close> is here.
\<close>

fun duplicated_from :: "'a list \<Rightarrow> 'a list \<Rightarrow> bool list" where
  "duplicated_from seen [] = []"
| "duplicated_from seen (x # xs) = (x \<in> set seen) # duplicated_from (x # seen) xs"

definition duplicated :: "'a list \<Rightarrow> bool list" where
  "duplicated xs = duplicated_from [] xs"

text \<open>The distinct values in order of first appearance (\<^verbatim>\<open>unique()\<close>, the hash table's key order).\<close>

fun unique_from :: "'a list \<Rightarrow> 'a list \<Rightarrow> 'a list" where
  "unique_from seen [] = []"
| "unique_from seen (x # xs) =
     (if x \<in> set seen then unique_from seen xs else x # unique_from (x # seen) xs)"

definition unique_values :: "'a list \<Rightarrow> 'a list" where
  "unique_values xs = unique_from [] xs"

text \<open>\<^verbatim>\<open>nunique(dropna=False)\<close>.\<close>

definition nunique :: "cell list \<Rightarrow> nat" where
  "nunique xs = length (unique_values xs)"

text \<open>
  The numeric reading of a cell in a reduction: a boolean counts as 0 or 1. A string or a missing
  cell is never read (reductions skip missing cells, and no numeric or boolean column holds a
  string).
\<close>

fun num_val :: "cell \<Rightarrow> real" where
  "num_val (Num r) = r"
| "num_val (Bl b) = (if b then 1 else 0)"
| "num_val _ = 0"

text \<open>\<^verbatim>\<open>Series.mean()\<close> (skipna): NaN when no cell is present.\<close>

definition mean :: "cell list \<Rightarrow> float64" where
  "mean xs =
     (let vs = map num_val (notna_values xs)
      in if vs = [] then NaN else Fin (sum_list vs / real (length vs)))"

text \<open>
  \<^verbatim>\<open>fillna(value, inplace=True)\<close> on the column selected by \<^verbatim>\<open>df[col]\<close>, which writes through
  to the frame (pandas before copy-on-write, which the file was written for). Filling with NaN
  leaves every missing cell missing.
\<close>

fun cell_of_float :: "float64 \<Rightarrow> cell" where
  "cell_of_float NaN = NA"
| "cell_of_float (Fin r) = Num r"

definition fillna :: "cell \<Rightarrow> cell list \<Rightarrow> cell list" where
  "fillna v xs = map (\<lambda>x. if x = NA then v else x) xs"

text \<open>
  \<^verbatim>\<open>Series.mode(dropna=True)\<close>: the values of highest frequency among the present cells, found
  in order of first appearance and then passed through \<^verbatim>\<open>np.sort\<close>; when the values cannot be
  compared with each other the sort is given up and the order of appearance stays.
\<close>

fun is_Str :: "cell \<Rightarrow> bool" where
  "is_Str (Str s) = True"
| "is_Str _ = False"

fun is_Bl :: "cell \<Rightarrow> bool" where
  "is_Bl (Bl b) = True"
| "is_Bl _ = False"

fun is_Num :: "cell \<Rightarrow> bool" where
  "is_Num (Num r) = True"
| "is_Num _ = False"

fun str_val :: "cell \<Rightarrow> string" where
  "str_val (Str s) = s"
| "str_val _ = []"

fun bool_val :: "cell \<Rightarrow> bool" where
  "bool_val (Bl b) = b"
| "bool_val _ = False"

definition np_sort :: "cell list \<Rightarrow> cell list" where
  "np_sort cs =
     (if list_all is_Str cs then map Str (sort (map str_val cs))
      else if list_all is_Bl cs then map Bl (sort (map bool_val cs))
      else if list_all is_Num cs then map Num (sort (map num_val cs))
      else cs)"

definition most_frequent :: "cell list \<Rightarrow> cell list" where
  "most_frequent vs =
     (let us = unique_values vs
      in filter (\<lambda>v. list_all (\<lambda>w. count_list vs w \<le> count_list vs v) us) us)"

definition mode :: "cell list \<Rightarrow> cell list" where
  "mode xs = np_sort (most_frequent (notna_values xs))"

subsection \<open>DataFrame\<close>

text \<open>\<^verbatim>\<open>select_dtypes(include="number")\<close> takes int64 and float64 columns, not bool.\<close>

fun is_number :: "dtype \<Rightarrow> bool" where
  "is_number Int64 = True"
| "is_number Float64 = True"
| "is_number _ = False"

definition select_dtypes_include_number :: "frame \<Rightarrow> frame" where
  "select_dtypes_include_number df = df\<lparr>columns := filter (\<lambda>c. is_number (dtype c)) (columns df)\<rparr>"

definition select_dtypes_exclude_number :: "frame \<Rightarrow> frame" where
  "select_dtypes_exclude_number df =
     df\<lparr>columns := filter (\<lambda>c. \<not> is_number (dtype c)) (columns df)\<rparr>"

text \<open>\<^verbatim>\<open>pd.api.types.is_numeric_dtype\<close> also accepts bool.\<close>

fun is_numeric_dtype :: "dtype \<Rightarrow> bool" where
  "is_numeric_dtype Object = False"
| "is_numeric_dtype _ = True"

text \<open>
  \<^verbatim>\<open>df.drop(columns=labels, errors=...)\<close>: the positions of every label are looked up on the
  column axis; a label found nowhere raises KeyError unless errors='ignore'; the positions found
  are deleted.
\<close>

definition get_indexer_for :: "string list \<Rightarrow> string \<Rightarrow> nat list" where
  "get_indexer_for axis l = filter (\<lambda>i. axis ! i = l) [0..<length axis]"

definition delete_positions :: "nat list \<Rightarrow> 'a list \<Rightarrow> 'a list" where
  "delete_positions ps xs = map snd (filter (\<lambda>p. fst p \<notin> set ps) (zip [0..<length xs] xs))"

definition drop_columns :: "string list \<Rightarrow> errors_arg \<Rightarrow> frame \<Rightarrow> error + frame" where
  "drop_columns labels errors df =
     (let axis = map name (columns df)
      in if errors = Raise \<and> list_ex (\<lambda>l. get_indexer_for axis l = []) labels then Inl KeyError
         else Inr (df\<lparr>columns :=
                delete_positions (concat (map (get_indexer_for axis) labels)) (columns df)\<rparr>))"

text \<open>
  \<^verbatim>\<open>df.drop_duplicates()\<close>: a frame without rows or without columns is returned as it is;
  otherwise the rows marked by \<^verbatim>\<open>duplicated()\<close> are taken out of the index and of every column.
\<close>

definition frame_rows :: "frame \<Rightarrow> cell list list" where
  "frame_rows df = map (\<lambda>i. map (\<lambda>c. cells c ! i) (columns df)) [0..<nrows df]"

definition frame_empty :: "frame \<Rightarrow> bool" where
  "frame_empty df = (nrows df = 0 \<or> columns df = [])"

definition boolean_select :: "bool list \<Rightarrow> 'a list \<Rightarrow> 'a list" where
  "boolean_select keep xs = map snd (filter fst (zip keep xs))"

definition drop_duplicates :: "frame \<Rightarrow> frame" where
  "drop_duplicates df =
     (if frame_empty df then df
      else let keep = map Not (duplicated (frame_rows df))
           in \<lparr>nrows = mask_sum keep,
               columns = map (\<lambda>c. c\<lparr>cells := boolean_select keep (cells c)\<rparr>) (columns df)\<rparr>)"

text \<open>\<^verbatim>\<open>df.dropna(axis=1, thresh=t)\<close> keeps the columns whose count of present cells reaches t.\<close>

definition dropna_columns :: "real \<Rightarrow> frame \<Rightarrow> frame" where
  "dropna_columns thresh df =
     df\<lparr>columns := filter (\<lambda>c. thresh \<le> real (count (cells c))) (columns df)\<rparr>"

section \<open>The cleaning route\<close>

text \<open>
  \<^verbatim>\<open>clean()\<close> from the frame read back to the frame written out, one definition per
  \<^verbatim>\<open>if\<close> block of the source. The two fill loops visit each selected column once (labels are
  unique) and change that column only.
\<close>

definition step_drop_cols :: "form \<Rightarrow> frame \<Rightarrow> error + frame" where
  "step_drop_cols f df =
     (if drop_cols f \<noteq> [] then drop_columns (drop_cols f) Ignore df else Inr df)"

definition step_drop_duplicates :: "form \<Rightarrow> frame \<Rightarrow> frame" where
  "step_drop_duplicates f df = (if has_drop_duplicates f then drop_duplicates df else df)"

definition step_drop_empty_cols :: "form \<Rightarrow> frame \<Rightarrow> frame" where
  "step_drop_empty_cols f df =
     (if has_drop_empty_cols f
      then let thresh = real (nrows df) * 0.5 in dropna_columns thresh df
      else df)"

definition fill_mean_column :: "column \<Rightarrow> column" where
  "fill_mean_column c =
     (if is_number (dtype c)
      then c\<lparr>cells := fillna (cell_of_float (mean (cells c))) (cells c)\<rparr>
      else c)"

definition step_fill_numeric_mean :: "form \<Rightarrow> frame \<Rightarrow> frame" where
  "step_fill_numeric_mean f df =
     (if has_fill_numeric_mean f then df\<lparr>columns := map fill_mean_column (columns df)\<rparr> else df)"

definition fill_mode_column :: "column \<Rightarrow> column" where
  "fill_mode_column c =
     (if \<not> is_number (dtype c)
      then (case mode (cells c) of
              [] \<Rightarrow> c
            | m # ms \<Rightarrow> c\<lparr>cells := fillna m (cells c)\<rparr>)
      else c)"

definition step_fill_categorical_mode :: "form \<Rightarrow> frame \<Rightarrow> frame" where
  "step_fill_categorical_mode f df =
     (if has_fill_categorical_mode f then df\<lparr>columns := map fill_mode_column (columns df)\<rparr>
      else df)"

definition clean :: "form \<Rightarrow> frame \<Rightarrow> error + frame" where
  "clean f df =
     (case step_drop_cols f df of
        Inl e \<Rightarrow> Inl e
      | Inr d1 \<Rightarrow>
          Inr (step_fill_categorical_mode f
                (step_fill_numeric_mean f
                  (step_drop_empty_cols f
                    (step_drop_duplicates f d1)))))"

section \<open>The profile\<close>

text \<open>
  \<^verbatim>\<open>round(x, 2)\<close> on a numpy float: NaN stays NaN; a number is multiplied by a power of ten,
  rounded to the nearest integer with halves going to the even neighbour, and divided by the power
  of ten again. The product and the quotient are float64 operations, as is the product
  \<^verbatim>\<open>x * 100\<close> before it.
\<close>

fun round_ndigits :: "float64 \<Rightarrow> nat \<Rightarrow> float64" where
  "round_ndigits NaN n = NaN"
| "round_ndigits (Fin r) n =
     Fin (float64_round (of_int (rint (float64_round (r * 10 ^ n))) / 10 ^ n))"

fun float_times :: "float64 \<Rightarrow> real \<Rightarrow> float64" where
  "float_times NaN k = NaN"
| "float_times (Fin r) k = Fin (float64_round (r * k))"

text \<open>
  \<^verbatim>\<open>Series.describe(percentiles=[.25, .5, .75])\<close>. A numeric column gets count, mean, std
  (sample standard deviation, ddof = 1: NaN unless at least two cells are present), min, the three
  percentiles by linear interpolation, and max. A bool column is described as a categorical one
  (count, unique, top, freq) and gets no std entry; of these only count, unique and freq are kept
  here.
\<close>

definition std :: "cell list \<Rightarrow> float64" where
  "std xs =
     (let vs = map num_val (notna_values xs); n = length vs
      in if n < 2 then NaN
         else let m = sum_list vs / real n
              in Fin (sqrt (sum_list (map (\<lambda>v. (v - m)\<^sup>2) vs) / real (n - 1))))"

definition series_min :: "cell list \<Rightarrow> float64" where
  "series_min xs =
     (case map num_val (notna_values xs) of [] \<Rightarrow> NaN | v # vs \<Rightarrow> Fin (fold min vs v))"

definition series_max :: "cell list \<Rightarrow> float64" where
  "series_max xs =
     (case map num_val (notna_values xs) of [] \<Rightarrow> NaN | v # vs \<Rightarrow> Fin (fold max vs v))"

definition quantile :: "real \<Rightarrow> cell list \<Rightarrow> float64" where
  "quantile q xs =
     (let vs = sort (map num_val (notna_values xs)); n = length vs
      in if n = 0 then NaN
         else let pos = q * real (n - 1);
                  lo = nat (floor pos);
                  hi = min (lo + 1) (n - 1)
              in Fin (vs ! lo + (vs ! hi - vs ! lo) * (pos - real lo)))"

record numeric_description =
  d_count :: nat
  d_mean :: float64
  d_std :: float64
  d_min :: float64
  d_q25 :: float64
  d_q50 :: float64
  d_q75 :: float64
  d_max :: float64

datatype description =
  Numeric numeric_description
| Categorical nat nat "nat option"

definition describe :: "column \<Rightarrow> description" where
  "describe c =
     (let xs = cells c
      in if dtype c = BoolT
         then let vs = notna_values xs
              in Categorical (length vs) (length (unique_values vs))
                   (case most_frequent vs of [] \<Rightarrow> None | m # ms \<Rightarrow> Some (count_list vs m))
         else Numeric \<lparr>d_count = count xs, d_mean = mean xs, d_std = std xs,
                d_min = series_min xs, d_q25 = quantile (1 / 4) xs, d_q50 = quantile (1 / 2) xs,
                d_q75 = quantile (3 / 4) xs, d_max = series_max xs\<rparr>)"

fun str_dtype :: "dtype \<Rightarrow> string" where
  "str_dtype Int64 = ''int64''"
| "str_dtype Float64 = ''float64''"
| "str_dtype BoolT = ''bool''"
| "str_dtype Object = ''object''"

text \<open>One \<^verbatim>\<open>info\<close> dict of \<^verbatim>\<open>df_profile\<close>; the entries of \<^verbatim>\<open>describe\<close> are there for a numeric dtype only.\<close>

record info =
  column :: string
  dtype_name :: string
  missing :: nat
  missing_pct :: float64
  unique :: nat
  duplicates :: nat
  described :: "description option"

definition column_info :: "column \<Rightarrow> info" where
  "column_info s =
     \<lparr>column = name s,
      dtype_name = str_dtype (dtype s),
      missing = mask_sum (isna (cells s)),
      missing_pct = round_ndigits (float_times (mask_mean (isna (cells s))) 100) 2,
      unique = nunique (cells s),
      duplicates = mask_sum (duplicated (cells s)),
      described = (if is_numeric_dtype (dtype s) then Some (describe s) else None)\<rparr>"

definition df_profile :: "frame \<Rightarrow> info list" where
  "df_profile df = map column_info (columns df)"

text \<open>
  \<^verbatim>\<open>correlation_heatmap\<close>: \<open>None\<close> with fewer than two number columns; otherwise the picture drawn
  from them. Computing the correlation matrix, drawing and encoding it are matplotlib's and are
  the parameter \<open>render\<close>.
\<close>

definition correlation_heatmap :: "(frame \<Rightarrow> 'img) \<Rightarrow> frame \<Rightarrow> 'img option" where
  "correlation_heatmap render df =
     (let num_df = select_dtypes_include_number df
      in if length (columns num_df) < 2 then None else Some (render num_df))"

section \<open>The specification's reading of the mode\<close>

text \<open>
  The specification breaks a tie between most frequent values by taking the one met first in row
  order. This is that choice, to be compared with what \<open>mode\<close> gives.
\<close>

definition spec_mode_first_encountered :: "cell list \<Rightarrow> cell option" where
  "spec_mode_first_encountered xs =
     (case most_frequent (notna_values xs) of [] \<Rightarrow> None | m # ms \<Rightarrow> Some m)"

section \<open>Example inputs\<close>

text \<open>The form with nothing selected, and the forms with one or two boxes ticked.\<close>

definition no_options :: form where
  "no_options = \<lparr>drop_cols = [], has_drop_duplicates = False, has_drop_empty_cols = False,
     has_fill_numeric_mean = False, has_fill_categorical_mode = False\<rparr>"

definition drop_unknown_options :: form where
  "drop_unknown_options = no_options\<lparr>drop_cols := [''score'', ''no_such_column'']\<rparr>"

definition dedup_sparse_options :: form where
  "dedup_sparse_options = no_options\<lparr>has_drop_duplicates := True, has_drop_empty_cols := True\<rparr>"

definition sparse_only :: form where
  "sparse_only = no_options\<lparr>has_drop_empty_cols := True\<rparr>"


definition mode_only :: form where
  "mode_only = no_options\<lparr>has_fill_categorical_mode := True\<rparr>"

text \<open>The scenario of the specification: ids 1 to 4 and a score with one gap.\<close>

definition score_frame :: frame where
  "score_frame = \<lparr>nrows = 4, columns =
     [\<lparr>name = ''id'', dtype = Int64, cells = [Num 1, Num 2, Num 3, Num 4]\<rparr>,
      \<lparr>name = ''score'', dtype = Float64, cells = [Num 10, NA, Num 10, Num 30]\<rparr>]\<rparr>"

text \<open>
  Four rows of which three are equal. Column b has one present cell: fewer than half of four,
  but half of the two rows left after the duplicates are gone.
\<close>

definition repeated_rows_frame :: frame where
  "repeated_rows_frame = \<lparr>nrows = 4, columns =
     [\<lparr>name = ''a'', dtype = Int64, cells = [Num 1, Num 1, Num 1, Num 2]\<rparr>,
      \<lparr>name = ''b'', dtype = Float64, cells = [NA, NA, NA, Num 5]\<rparr>]\<rparr>"

text \<open>Ten rows; x is missing in six of them, y in five.\<close>

definition sparse_frame :: frame where
  "sparse_frame = \<lparr>nrows = 10, columns =
     [\<lparr>name = ''x'', dtype = Float64,
        cells = [Num 1, NA, NA, Num 2, NA, NA, Num 3, NA, NA, Num 4]\<rparr>,
      \<lparr>name = ''y'', dtype = Float64,
        cells = [Num 1, NA, Num 2, NA, Num 3, NA, Num 4, NA, Num 5, NA]\<rparr>]\<rparr>"

text \<open>A text column in which two values are met once each, b before a.\<close>

definition tie_frame :: frame where
  "tie_frame = \<lparr>nrows = 3, columns =
     [\<lparr>name = ''city'', dtype = Object, cells = [Str ''b'', Str ''a'', NA]\<rparr>]\<rparr>"

text \<open>A file that has a header line and no data line: one object column, no rows.\<close>

definition header_only_frame :: frame where
  "header_only_frame = \<lparr>nrows = 0, columns = [\<lparr>name = ''a'', dtype = Object, cells = []\<rparr>]\<rparr>"

text \<open>A float column with a single present cell, and one with three gaps among distinct values.\<close>

definition single_value_frame :: frame where
  "single_value_frame = \<lparr>nrows = 2, columns =
     [\<lparr>name = ''w'', dtype = Float64, cells = [Num 5, NA]\<rparr>]\<rparr>"

definition gaps_column :: column where
  "gaps_column = \<lparr>name = ''g'', dtype = Float64, cells = [NA, Num 1, NA, NA, Num 2]\<rparr>"

text \<open>A column of 160 cells of which 23 are missing.\<close>

definition mostly_present_frame :: frame where
  "mostly_present_frame = \<lparr>nrows = 160, columns =
     [\<lparr>name = ''v'', dtype = Float64, cells = replicate 23 NA @ replicate 137 (Num 1)\<rparr>]\<rparr>"

definition three_number_frame :: frame where
  "three_number_frame = \<lparr>nrows = 1, columns =
     [\<lparr>name = ''p'', dtype = Int64, cells = [Num 1]\<rparr>,
      \<lparr>name = ''q'', dtype = BoolT, cells = [Bl True]\<rparr>,
      \<lparr>name = ''r'', dtype = Float64, cells = [Num 2]\<rparr>]\<rparr>"

section \<open>Facts about float64 rounding\<close>

text \<open>\<open>binade\<close> is the binary exponent: \<open>2^e \<le> |x| < 2^(e+1)\<close>.\<close>

lemma binade_bounds:
  assumes "x \<noteq> 0"
  shows "2 powi binade x \<le> \<bar>x\<bar>" and "\<bar>x\<bar> < 2 powi (binade x + 1)"
proof -
  define a where "a = \<bar>x\<bar>"
  have a: "0 < a" using assms by (simp add: a_def)
  have "2 powi binade x \<le> a \<and> a < 2 powi (binade x + 1)"
  proof (cases "1 \<le> a")
    case True
    define n where "n = floor a"
    have n: "0 < n" using True by (simp add: n_def)
    have b: "binade x = bitlen n - 1"
      using True by (simp add: binade_def a_def n_def)
    have k: "0 < bitlen n" using n bitlen_bounds [OF n] bitlen_nonneg [of n]
      by (metis bitlen_eq_zero_iff less_le not_less)
    from bitlen_bounds [OF n]
    have lo: "2 ^ nat (bitlen n - 1) \<le> n" and hi: "n < 2 ^ nat (bitlen n)" by auto
    have "real_of_int (2 ^ nat (bitlen n - 1)) \<le> real_of_int n" using lo by linarith
    also have "\<dots> \<le> a" by (simp add: n_def)
    finally have 1: "2 powi (bitlen n - 1) \<le> a"
      using k by (simp add: power_int_def)
    have "n + 1 \<le> 2 ^ nat (bitlen n)" using hi by simp
    then have "real_of_int (n + 1) \<le> real_of_int (2 ^ nat (bitlen n))" by linarith
    moreover have "a < real_of_int (n + 1)" by (simp add: n_def)
    ultimately have 2: "a < 2 powi (bitlen n)"
      using k by (simp add: power_int_def)
    show ?thesis using 1 2 b by simp
  next
    case False
    define y where "y = 1 / a"
    have y: "1 < y" using False a by (simp add: y_def)
    define c where "c = ceiling y - 1"
    have c: "0 < c" using y by (simp add: c_def)
    have b: "binade x = - bitlen c"
      using False by (simp add: binade_def a_def c_def y_def)
    have k: "0 < bitlen c" using c bitlen_nonneg [of c]
      by (metis bitlen_eq_zero_iff less_le not_less)
    from bitlen_bounds [OF c]
    have lo: "2 ^ nat (bitlen c - 1) \<le> c" and hi: "c < 2 ^ nat (bitlen c)" by auto
    have cy: "real_of_int c < y" "y \<le> real_of_int (c + 1)"
      by (simp_all add: c_def) linarith+
    have "c + 1 \<le> 2 ^ nat (bitlen c)" using hi by simp
    then have "real_of_int (c + 1) \<le> 2 ^ nat (bitlen c)" by (simp del: of_int_add)
    then have yhi: "y \<le> 2 ^ nat (bitlen c)" using cy(2) by linarith
    have "(2::real) ^ nat (bitlen c - 1) \<le> real_of_int c" using lo by simp
    then have ylo: "2 ^ nat (bitlen c - 1) < y" using cy(1) by linarith
    have ay: "a = 1 / y" using a by (simp add: y_def)
    have 1: "2 powi (- bitlen c) \<le> a"
    proof -
      have "1 / 2 ^ nat (bitlen c) \<le> 1 / y"
        using yhi y by (intro divide_left_mono) simp_all
      then show ?thesis using k by (simp add: ay power_int_def field_simps)
    qed
    have 2: "a < 2 powi (- bitlen c + 1)"
    proof -
      have "0 < y" using y by simp
      then have "0 < y * 2 ^ nat (bitlen c - 1)" by (intro mult_pos_pos) simp_all
      then have "1 / y < 1 / 2 ^ nat (bitlen c - 1)"
        using ylo by (intro divide_strict_left_mono) simp_all
      moreover have "(2::real) powi (- bitlen c + 1) = 1 / 2 ^ nat (bitlen c - 1)"
      proof -
        have "- bitlen c + 1 = - int (nat (bitlen c - 1))" using k by simp
        then show ?thesis by (simp only: power_int_minus power_int_of_nat) (simp add: field_simps)
      qed
      ultimately show ?thesis by (simp add: ay)
    qed
    show ?thesis using 1 2 b by simp
  qed
  then show "2 powi binade x \<le> \<bar>x\<bar>" and "\<bar>x\<bar> < 2 powi (binade x + 1)"
    by (simp_all add: a_def)
qed

section \<open>Facts about the pandas operations\<close>

subsection \<open>Dropping columns by label\<close>

lemma step_drop_cols_Inr: "\<exists>d1. step_drop_cols f df = Inr d1"
  by (simp add: step_drop_cols_def drop_columns_def)

lemma set_get_indexer_for:
  "set (get_indexer_for axis l) = {i. i < length axis \<and> axis ! i = l}"
  by (auto simp: get_indexer_for_def)

lemma delete_positions_filter:
  assumes "\<And>i. i < length xs \<Longrightarrow> (i \<notin> set ps) = P (xs ! i)"
  shows "delete_positions ps xs = filter P xs"
proof -
  have "filter (\<lambda>p. fst p \<notin> set ps) (zip [0..<length xs] xs)
        = filter (\<lambda>p. P (snd p)) (zip [0..<length xs] xs)"
  proof (rule filter_cong[OF refl])
    fix p assume "p \<in> set (zip [0..<length xs] xs)"
    then obtain i where "i < length xs" "p = (i, xs ! i)"
      by (auto simp: set_zip)
    then show "(fst p \<notin> set ps) = P (snd p)" using assms by simp
  qed
  then have "delete_positions ps xs = map snd (filter (P \<circ> snd) (zip [0..<length xs] xs))"
    by (simp add: delete_positions_def comp_def)
  also have "\<dots> = filter P (map snd (zip [0..<length xs] xs))"
    by (rule filter_map [symmetric])
  finally show ?thesis by simp
qed

lemma drop_columns_ignore:
  "drop_columns labels Ignore df =
     Inr (df\<lparr>columns := filter (\<lambda>c. name c \<notin> set labels) (columns df)\<rparr>)"
proof -
  have "delete_positions (concat (map (get_indexer_for (map name (columns df))) labels)) (columns df)
        = filter (\<lambda>c. name c \<notin> set labels) (columns df)"
    by (rule delete_positions_filter) (auto simp: set_get_indexer_for)
  then show ?thesis by (simp add: drop_columns_def)
qed

lemma step_drop_cols_eq:
  "step_drop_cols f df =
     Inr (df\<lparr>columns := filter (\<lambda>c. name c \<notin> set (drop_cols f)) (columns df)\<rparr>)"
  by (cases "drop_cols f = []") (simp_all add: step_drop_cols_def drop_columns_ignore)

subsection \<open>Well-formed frames stay well-formed\<close>

lemma wf_frame_filter_columns:
  "wf_frame df \<Longrightarrow> wf_frame (df\<lparr>columns := filter P (columns df)\<rparr>)"
  by (auto simp: wf_frame_def list_all_iff distinct_map_filter)

lemma wf_step_drop_cols:
  "wf_frame df \<Longrightarrow> step_drop_cols f df = Inr d1 \<Longrightarrow> wf_frame d1"
  using wf_frame_filter_columns by (auto simp: step_drop_cols_eq)

lemma length_boolean_select:
  "length keep = length xs \<Longrightarrow> length (boolean_select keep xs) = mask_sum keep"
proof (induction keep xs rule: list_induct2)
  case Nil
  then show ?case by (simp add: boolean_select_def mask_sum_def)
next
  case (Cons k ks x xs)
  then show ?case by (cases k) (simp_all add: boolean_select_def mask_sum_def)
qed

lemma set_boolean_select: "set (boolean_select keep xs) \<subseteq> set xs"
  by (auto simp: boolean_select_def dest: set_zip_rightD)

lemma length_duplicated_from: "length (duplicated_from seen xs) = length xs"
  by (induction xs arbitrary: seen) simp_all

lemma length_duplicated: "length (duplicated xs) = length xs"
  by (simp add: duplicated_def length_duplicated_from)

lemma wf_drop_duplicates:
  assumes "wf_frame df"
  shows "wf_frame (drop_duplicates df)"
proof (cases "frame_empty df")
  case True
  then show ?thesis using assms by (simp add: drop_duplicates_def)
next
  case False
  let ?keep = "map Not (duplicated (frame_rows df))"
  have len: "length ?keep = nrows df"
    by (simp add: length_duplicated frame_rows_def)
  have cols: "wf_column (mask_sum ?keep) (c\<lparr>cells := boolean_select ?keep (cells c)\<rparr>)"
    if "c \<in> set (columns df)" for c
  proof -
    from that assms have c: "length (cells c) = nrows df" "list_all (fits (dtype c)) (cells c)"
      by (auto simp: wf_frame_def wf_column_def list_all_iff)
    have "length (boolean_select ?keep (cells c)) = mask_sum ?keep"
      using len c(1) by (intro length_boolean_select) simp
    moreover have "list_all (fits (dtype c)) (boolean_select ?keep (cells c))"
      using c(2) set_boolean_select [of ?keep "cells c"] by (auto simp: list_all_iff)
    ultimately show ?thesis by (simp add: wf_column_def)
  qed
  have "map name (map (\<lambda>c. c\<lparr>cells := boolean_select ?keep (cells c)\<rparr>) (columns df))
        = map name (columns df)"
    by simp
  then show ?thesis
    using False assms cols
    by (simp add: drop_duplicates_def Let_def wf_frame_def list_all_iff del: map_map)
qed

lemma wf_step_drop_duplicates: "wf_frame df \<Longrightarrow> wf_frame (step_drop_duplicates f df)"
  by (simp add: step_drop_duplicates_def wf_drop_duplicates)

subsection \<open>Counting cells\<close>

lemma count_plus_missing: "count xs + mask_sum (isna xs) = length xs"
  by (induction xs) (simp_all add: count_def notna_values_def mask_sum_def isna_def)

lemma mask_sum_isna: "mask_sum (isna xs) = length (filter (\<lambda>x. x = NA) xs)"
  by (induction xs) (simp_all add: mask_sum_def isna_def)

lemma mask_sum_Cons: "mask_sum (b # bs) = (if b then 1 else 0) + mask_sum bs"
  by (simp add: mask_sum_def)

lemma mask_sum_duplicated_from:
  "mask_sum (duplicated_from seen xs) + card (set xs - set seen) = length xs"
proof (induction xs arbitrary: seen)
  case Nil
  then show ?case by (simp add: mask_sum_def)
next
  case (Cons x xs)
  have ih: "mask_sum (duplicated_from (x # seen) xs) + card (set xs - set (x # seen)) = length xs"
    by (rule Cons)
  have l: "length (x # xs) = Suc (length xs)"
    by simp
  show ?case
  proof (cases "x \<in> set seen")
    case True
    have "set (x # xs) - set seen = set xs - set (x # seen)"
      using True by auto
    then have c: "card (set (x # xs) - set seen) = card (set xs - set (x # seen))"
      by (rule arg_cong)
    have m: "mask_sum (duplicated_from seen (x # xs)) = Suc (mask_sum (duplicated_from (x # seen) xs))"
      using True by (simp add: mask_sum_Cons)
    show ?thesis using ih l c m by linarith
  next
    case False
    have "set (x # xs) - set seen = insert x (set xs - set (x # seen))"
      using False by auto
    then have "card (set (x # xs) - set seen) = card (insert x (set xs - set (x # seen)))"
      by (rule arg_cong)
    also have "\<dots> = Suc (card (set xs - set (x # seen)))"
      by (rule card_insert_disjoint) simp_all
    finally have c: "card (set (x # xs) - set seen) = Suc (card (set xs - set (x # seen)))" .
    have m: "mask_sum (duplicated_from seen (x # xs)) = mask_sum (duplicated_from (x # seen) xs)"
      using False by (simp add: mask_sum_Cons)
    show ?thesis using ih l c m by linarith
  qed
qed

lemma mask_sum_duplicated: "mask_sum (duplicated xs) + card (set xs) = length xs"
  using mask_sum_duplicated_from [of "[]" xs] by (simp add: duplicated_def)

lemma missing_marked_from:
  "mask_sum (map2 (\<lambda>x d. x = NA \<and> d) xs (duplicated_from seen xs)) =
     (if NA \<in> set seen then mask_sum (isna xs) else mask_sum (isna xs) - 1)"
proof (induction xs arbitrary: seen)
  case Nil
  then show ?case by (simp add: mask_sum_def isna_def)
next
  case (Cons x xs)
  show ?case
  proof (cases "x = NA")
    case True
    then show ?thesis using Cons [of "x # seen"] by (simp add: mask_sum_Cons isna_def)
  next
    case False
    then show ?thesis using Cons [of "x # seen"] by (auto simp add: mask_sum_Cons isna_def)
  qed
qed

lemma card_set_with_missing:
  assumes "NA \<in> set xs" "distinct (notna_values xs)"
  shows "card (set xs) = Suc (count xs)"
proof -
  have "set xs = insert NA (set (notna_values xs))"
    using assms(1) by (auto simp: notna_values_def)
  moreover have "NA \<notin> set (notna_values xs)"
    by (simp add: notna_values_def)
  ultimately have "card (set xs) = Suc (card (set (notna_values xs)))"
    by simp
  then show ?thesis using assms(2) by (simp add: count_def distinct_card)
qed

subsection \<open>Filling\<close>


lemma NA_notin_fillna: "v \<noteq> NA \<Longrightarrow> NA \<notin> set (fillna v xs)"
  by (auto simp: fillna_def)




lemma fill_mean_column_other: "\<not> is_number (dtype c) \<Longrightarrow> fill_mean_column c = c"
  by (simp add: fill_mean_column_def)

lemma names_step_fill_numeric_mean:
  "map name (columns (step_fill_numeric_mean f d)) = map name (columns d)"
  by (simp add: step_fill_numeric_mean_def fill_mean_column_def)

lemma names_fill_mode_column: "name (fill_mode_column c) = name c"
  by (simp add: fill_mode_column_def split: list.split)

lemma names_step_fill_categorical_mode:
  "map name (columns (step_fill_categorical_mode f d)) = map name (columns d)"
  by (simp add: step_fill_categorical_mode_def names_fill_mode_column)

lemma names_clean:
  assumes "step_drop_cols f df = Inr d1"
  shows "\<exists>r. clean f df = Inr r \<and>
    map name (columns r) = map name (columns (step_drop_empty_cols f (step_drop_duplicates f d1)))"
  using assms
  by (simp add: clean_def names_step_fill_categorical_mode names_step_fill_numeric_mean)

subsection \<open>The mode\<close>

lemma set_unique_from: "set (unique_from seen xs) = set xs - set seen"
  by (induction xs arbitrary: seen) auto

lemma set_unique_values: "set (unique_values xs) = set xs"
  by (simp add: unique_values_def set_unique_from)

lemma set_most_frequent:
  "set (most_frequent vs) = {v \<in> set vs. \<forall>w \<in> set vs. count_list vs w \<le> count_list vs v}"
  by (auto simp: most_frequent_def Let_def list_all_iff set_unique_values)

lemma most_frequent_nonempty:
  assumes "vs \<noteq> []"
  shows "most_frequent vs \<noteq> []"
proof -
  have "finite (count_list vs ` set vs)" "count_list vs ` set vs \<noteq> {}"
    using assms by simp_all
  then have "Max (count_list vs ` set vs) \<in> count_list vs ` set vs"
    by (rule Max_in)
  then obtain v where v: "v \<in> set vs" "count_list vs v = Max (count_list vs ` set vs)"
    by auto
  have "count_list vs w \<le> count_list vs v" if "w \<in> set vs" for w
    using that v(2) by simp
  then have "v \<in> set (most_frequent vs)"
    using v(1) by (simp add: set_most_frequent)
  then show ?thesis by auto
qed

lemma Str_str_val: "is_Str c \<Longrightarrow> Str (str_val c) = c"
  by (cases c) simp_all

lemma Bl_bool_val: "is_Bl c \<Longrightarrow> Bl (bool_val c) = c"
  by (cases c) simp_all

lemma Num_num_val: "is_Num c \<Longrightarrow> Num (num_val c) = c"
  by (cases c) simp_all

lemma set_np_sort: "set (np_sort cs) = set cs"
proof -
  have "Str ` str_val ` set cs = set cs" if "list_all is_Str cs"
    using that by (force simp: list_all_iff image_iff Str_str_val)
  moreover have "Bl ` bool_val ` set cs = set cs" if "list_all is_Bl cs"
    using that by (force simp: list_all_iff image_iff Bl_bool_val)
  moreover have "Num ` num_val ` set cs = set cs" if "list_all is_Num cs"
    using that by (force simp: list_all_iff image_iff Num_num_val)
  ultimately show ?thesis
    by (simp add: np_sort_def)
qed

lemma sorted_head_least:
  fixes xs :: "'a::linorder list"
  assumes "sort xs = y # ys" "x \<in> set xs"
  shows "y \<le> x"
proof -
  have "sorted (sort xs)" by (rule sorted_sort)
  then have "sorted (y # ys)" using assms(1) by simp
  moreover have "x \<in> set (sort xs)" using assms(2) by simp
  then have "x \<in> set (y # ys)" using assms(1) by simp
  ultimately show ?thesis by auto
qed

lemma np_sort_head_Str:
  assumes "np_sort cs = m # ms" "list_all is_Str cs" "v \<in> set cs"
  shows "str_val m \<le> str_val v"
proof -
  from assms(1,2) have "map Str (sort (map str_val cs)) = m # ms"
    by (simp add: np_sort_def)
  then obtain s ss where "sort (map str_val cs) = s # ss" "m = Str s"
    by (cases "sort (map str_val cs)") auto
  then show ?thesis
    using sorted_head_least [of "map str_val cs" s ss "str_val v"] assms(3) by simp
qed

lemma np_sort_head_Bl:
  assumes "np_sort cs = m # ms" "list_all is_Bl cs" "v \<in> set cs"
  shows "bool_val m \<le> bool_val v"
proof -
  have "\<not> list_all is_Str cs"
  proof
    assume "list_all is_Str cs"
    then have "is_Str v" "is_Bl v" using assms(2,3) by (auto simp: list_all_iff)
    then show False by (cases v) simp_all
  qed
  with assms(1,2) have "map Bl (sort (map bool_val cs)) = m # ms"
    by (simp add: np_sort_def)
  then obtain s ss where "sort (map bool_val cs) = s # ss" "m = Bl s"
    by (cases "sort (map bool_val cs)") auto
  then show ?thesis
    using sorted_head_least [of "map bool_val cs" s ss "bool_val v"] assms(3) by simp
qed

lemma mode_empty: "count xs = 0 \<Longrightarrow> mode xs = []"
  by (simp add: count_def mode_def most_frequent_def unique_values_def np_sort_def)

lemma mode_nonempty:
  assumes "count xs \<noteq> 0"
  shows "\<exists>m ms. mode xs = m # ms"
proof -
  have "most_frequent (notna_values xs) \<noteq> []"
    using assms by (intro most_frequent_nonempty) (auto simp: count_def)
  then have "set (mode xs) \<noteq> {}"
    by (simp add: mode_def set_np_sort)
  then show ?thesis by (cases "mode xs") auto
qed

lemma mode_head:
  assumes "mode xs = m # ms"
  shows "m \<in> set (notna_values xs)"
    and "\<forall>v \<in> set (notna_values xs). count_list (notna_values xs) v \<le> count_list (notna_values xs) m"
    and "\<forall>v \<in> set (notna_values xs).
           count_list (notna_values xs) v = count_list (notna_values xs) m \<longrightarrow>
             (list_all is_Str (notna_values xs) \<longrightarrow> str_val m \<le> str_val v) \<and>
             (list_all is_Bl (notna_values xs) \<longrightarrow> bool_val m \<le> bool_val v)"
proof -
  let ?vs = "notna_values xs"
  have "m \<in> set (mode xs)" using assms by simp
  then have m: "m \<in> set (most_frequent ?vs)"
    by (simp add: mode_def set_np_sort)
  then show in_vs: "m \<in> set ?vs"
    and mx: "\<forall>v \<in> set ?vs. count_list ?vs v \<le> count_list ?vs m"
    by (simp_all add: set_most_frequent)
  have sub: "set (most_frequent ?vs) \<subseteq> set ?vs"
    by (auto simp: set_most_frequent)
  have tied: "v \<in> set (most_frequent ?vs)"
    if "v \<in> set ?vs" "count_list ?vs v = count_list ?vs m" for v
    using that mx by (simp add: set_most_frequent)
  have srt: "np_sort (most_frequent ?vs) = m # ms"
    using assms by (simp add: mode_def)
  show "\<forall>v \<in> set ?vs. count_list ?vs v = count_list ?vs m \<longrightarrow>
          (list_all is_Str ?vs \<longrightarrow> str_val m \<le> str_val v) \<and>
          (list_all is_Bl ?vs \<longrightarrow> bool_val m \<le> bool_val v)"
  proof (intro ballI impI conjI)
    fix v assume v: "v \<in> set ?vs" "count_list ?vs v = count_list ?vs m"
    { assume "list_all is_Str ?vs"
      then have "list_all is_Str (most_frequent ?vs)"
        using sub by (auto simp: list_all_iff)
      then show "str_val m \<le> str_val v"
        using srt tied [OF v] by (intro np_sort_head_Str) }
    { assume "list_all is_Bl ?vs"
      then have "list_all is_Bl (most_frequent ?vs)"
        using sub by (auto simp: list_all_iff)
      then show "bool_val m \<le> bool_val v"
        using srt tied [OF v] by (intro np_sort_head_Bl) }
  qed
qed

lemma fill_mode_column_other:
  assumes "\<not> is_number (dtype c)"
  shows "name (fill_mode_column c) = name c"
    and "count (cells c) = 0 \<Longrightarrow> cells (fill_mode_column c) = cells c"
    and "count (cells c) \<noteq> 0 \<Longrightarrow>
           \<exists>m ms. mode (cells c) = m # ms \<and> cells (fill_mode_column c) = fillna m (cells c)"
proof -
  show "name (fill_mode_column c) = name c"
    by (simp add: fill_mode_column_def split: list.split)
  show "cells (fill_mode_column c) = cells c" if "count (cells c) = 0"
    using assms mode_empty [OF that] by (simp add: fill_mode_column_def)
  show "\<exists>m ms. mode (cells c) = m # ms \<and> cells (fill_mode_column c) = fillna m (cells c)"
    if ne: "count (cells c) \<noteq> 0"
  proof -
    obtain m ms where "mode (cells c) = m # ms"
      using mode_nonempty [OF ne] by blast
    then show ?thesis using assms by (simp add: fill_mode_column_def)
  qed
qed

section \<open>The cleaning route: what the specification says of it\<close>

text \<open>
  C5. With nothing selected on the form (no column to drop, no box ticked) the cleaning route
  gives back the frame it read: the same columns in the same order with the same cells.
\<close>

theorem clean_all_disabled_is_identity:
  assumes "drop_cols f = []" "\<not> has_drop_duplicates f" "\<not> has_drop_empty_cols f"
    "\<not> has_fill_numeric_mean f" "\<not> has_fill_categorical_mode f"
  shows "clean f df = Inr df"
  using assms
  by (simp add: clean_def step_drop_cols_def step_drop_duplicates_def step_drop_empty_cols_def
      step_fill_numeric_mean_def step_fill_categorical_mode_def)

theorem clean_all_disabled_is_identity_witness:
  "drop_cols no_options = [] \<and> \<not> has_drop_duplicates no_options
   \<and> \<not> has_drop_empty_cols no_options \<and> \<not> has_fill_numeric_mean no_options
   \<and> \<not> has_fill_categorical_mode no_options \<and> clean no_options score_frame = Inr score_frame"
  using clean_all_disabled_is_identity [of no_options score_frame]
  by (simp add: no_options_def)

text \<open>
  C9. The drop-columns step never raises. It removes exactly the columns whose label is among
  the selected ones, a selected label that no column bears changes nothing, and the other columns
  stay as they are, in their order, over the same rows.
\<close>

theorem drop_columns_step_removes_exactly_named:
  "\<exists>d1. step_drop_cols f df = Inr d1 \<and> nrows d1 = nrows df \<and>
         columns d1 = filter (\<lambda>c. name c \<notin> set (drop_cols f)) (columns df)"
  by (simp add: step_drop_cols_eq)

theorem drop_columns_step_removes_exactly_named_witness:
  "\<exists>d1. step_drop_cols drop_unknown_options score_frame = Inr d1 \<and> nrows d1 = 4 \<and>
         columns d1 = [\<lparr>name = ''id'', dtype = Int64, cells = [Num 1, Num 2, Num 3, Num 4]\<rparr>]"
  using drop_columns_step_removes_exactly_named [of drop_unknown_options score_frame]
  by (simp add: drop_unknown_options_def no_options_def score_frame_def)

text \<open>
  C1. With both the duplicate-rows box and the sparse-columns box ticked, the columns of the
  result are those columns of the frame left after the duplicate rows are gone whose count of
  present cells is not strictly below half of that frame's number of rows: the threshold is taken
  from the row count after deduplication.
\<close>

theorem sparse_threshold_after_deduplication:
  assumes "has_drop_duplicates f" "has_drop_empty_cols f"
  shows "\<exists>d1 r. step_drop_cols f df = Inr d1 \<and> clean f df = Inr r \<and>
           map name (columns r) =
             map name (filter (\<lambda>c. \<not> real (count (cells c)) < 0.5 * real (nrows (drop_duplicates d1)))
                        (columns (drop_duplicates d1)))"
proof -
  obtain d1 where d1: "step_drop_cols f df = Inr d1"
    using step_drop_cols_Inr by blast
  have "clean f df = Inr (step_fill_categorical_mode f (step_fill_numeric_mean f
          (step_drop_empty_cols f (step_drop_duplicates f d1))))"
    by (simp add: clean_def d1)
  moreover have "map name (columns (step_fill_categorical_mode f (step_fill_numeric_mean f
          (step_drop_empty_cols f (step_drop_duplicates f d1)))))
       = map name (columns (step_drop_empty_cols f (step_drop_duplicates f d1)))"
    by (simp add: names_step_fill_categorical_mode names_step_fill_numeric_mean)
  moreover have "columns (step_drop_empty_cols f (step_drop_duplicates f d1))
       = filter (\<lambda>c. \<not> real (count (cells c)) < 0.5 * real (nrows (drop_duplicates d1)))
           (columns (drop_duplicates d1))"
    using assms
    by (simp add: step_drop_empty_cols_def step_drop_duplicates_def dropna_columns_def not_less)
  ultimately show ?thesis using d1 by simp
qed

theorem sparse_threshold_after_deduplication_witness:
  "has_drop_duplicates dedup_sparse_options \<and> has_drop_empty_cols dedup_sparse_options \<and>
   (\<exists>r. clean dedup_sparse_options repeated_rows_frame = Inr r \<and>
        map name (columns r) = [''a'', ''b''])"
proof -
  have h: "has_drop_duplicates dedup_sparse_options" "has_drop_empty_cols dedup_sparse_options"
    by (simp_all add: dedup_sparse_options_def no_options_def)
  obtain d1 r where a: "step_drop_cols dedup_sparse_options repeated_rows_frame = Inr d1"
    and b: "clean dedup_sparse_options repeated_rows_frame = Inr r"
    and c: "map name (columns r) =
             map name (filter (\<lambda>c. \<not> real (count (cells c)) < 0.5 * real (nrows (drop_duplicates d1)))
                        (columns (drop_duplicates d1)))"
    using sparse_threshold_after_deduplication [OF h, of repeated_rows_frame] by blast
  have d1: "d1 = repeated_rows_frame"
    using a by (simp add: step_drop_cols_def dedup_sparse_options_def no_options_def)
  have dd: "drop_duplicates repeated_rows_frame = \<lparr>nrows = 2, columns =
     [\<lparr>name = ''a'', dtype = Int64, cells = [Num 1, Num 2]\<rparr>,
      \<lparr>name = ''b'', dtype = Float64, cells = [NA, Num 5]\<rparr>]\<rparr>"
    by code_simp
  have "map name (columns r) = [''a'', ''b'']"
    using c by (simp add: d1 dd count_def notna_values_def)
  then show ?thesis using h b by simp
qed

text \<open>
  C2. With the sparse-columns box ticked, a column of the frame that reaches that step is in the
  result if and only if at least half of its cells are present. So a column of which 60 percent
  of the cells are missing is absent from the result, and a column of which exactly half of the
  cells are missing is kept.
\<close>

theorem sparse_column_survives_iff_half_present:
  assumes "wf_frame df" "has_drop_empty_cols f"
  shows "\<exists>d1 r. step_drop_cols f df = Inr d1 \<and> clean f df = Inr r \<and>
           (\<forall>c \<in> set (columns (step_drop_duplicates f d1)).
              (name c \<in> set (map name (columns r)))
                = (nrows (step_drop_duplicates f d1) \<le> 2 * count (cells c)) \<and>
              (0 < nrows (step_drop_duplicates f d1) \<and>
               10 * mask_sum (isna (cells c)) = 6 * nrows (step_drop_duplicates f d1)
                 \<longrightarrow> name c \<notin> set (map name (columns r))) \<and>
              (2 * mask_sum (isna (cells c)) = nrows (step_drop_duplicates f d1)
                 \<longrightarrow> name c \<in> set (map name (columns r))))"
proof -
  obtain d1 where d1: "step_drop_cols f df = Inr d1"
    using step_drop_cols_Inr by blast
  let ?d = "step_drop_duplicates f d1"
  obtain r where r: "clean f df = Inr r"
    "map name (columns r) = map name (columns (step_drop_empty_cols f ?d))"
    using names_clean [OF d1] by blast
  have wf: "wf_frame ?d"
    using assms(1) d1 wf_step_drop_cols wf_step_drop_duplicates by blast
  have half: "(real n * 0.5 \<le> real k) = (n \<le> 2 * k)" for n k :: nat
  proof -
    have "(real n * 0.5 \<le> real k) = (real n \<le> real (2 * k))"
      by (simp add: field_simps)
    then show ?thesis by (simp only: of_nat_le_iff)
  qed
  have "columns (step_drop_empty_cols f ?d)
      = filter (\<lambda>c. real (nrows ?d) * 0.5 \<le> real (count (cells c))) (columns ?d)"
    using assms(2) by (simp add: step_drop_empty_cols_def dropna_columns_def)
  then have cols: "columns (step_drop_empty_cols f ?d)
      = filter (\<lambda>c. nrows ?d \<le> 2 * count (cells c)) (columns ?d)"
    by (simp only: half)
  have main: "(name c \<in> set (map name (columns r))) = (nrows ?d \<le> 2 * count (cells c))"
    if c: "c \<in> set (columns ?d)" for c
  proof
    assume "name c \<in> set (map name (columns r))"
    then obtain c' where c': "c' \<in> set (columns ?d)" "nrows ?d \<le> 2 * count (cells c')"
      "name c' = name c"
      by (auto simp: r(2) cols)
    have "inj_on name (set (columns ?d))"
      using wf by (simp add: wf_frame_def distinct_map)
    then have "c' = c" using c c'(1,3) by (auto dest: inj_onD)
    then show "nrows ?d \<le> 2 * count (cells c)" using c'(2) by simp
  next
    assume "nrows ?d \<le> 2 * count (cells c)"
    then show "name c \<in> set (map name (columns r))"
      using c by (auto simp: r(2) cols)
  qed
  have len: "count (cells c) + mask_sum (isna (cells c)) = nrows ?d"
    if "c \<in> set (columns ?d)" for c
    using wf that count_plus_missing [of "cells c"]
    by (auto simp: wf_frame_def wf_column_def list_all_iff)
  have "(name c \<in> set (map name (columns r))) = (nrows ?d \<le> 2 * count (cells c)) \<and>
        (0 < nrows ?d \<and> 10 * mask_sum (isna (cells c)) = 6 * nrows ?d
           \<longrightarrow> name c \<notin> set (map name (columns r))) \<and>
        (2 * mask_sum (isna (cells c)) = nrows ?d \<longrightarrow> name c \<in> set (map name (columns r)))"
    if c: "c \<in> set (columns ?d)" for c
    using main [OF c] len [OF c] by auto
  then show ?thesis using d1 r(1) by blast
qed

theorem sparse_column_survives_iff_half_present_witness:
  "wf_frame sparse_frame \<and> has_drop_empty_cols sparse_only \<and>
   (\<exists>r. clean sparse_only sparse_frame = Inr r \<and>
        ''x'' \<notin> set (map name (columns r)) \<and> ''y'' \<in> set (map name (columns r)))"
proof -
  have h1: "wf_frame sparse_frame"
    by (simp add: sparse_frame_def wf_frame_def wf_column_def)
  have h2: "has_drop_empty_cols sparse_only"
    by (simp add: sparse_only_def no_options_def)
  obtain d1 r where a: "step_drop_cols sparse_only sparse_frame = Inr d1"
    and b: "clean sparse_only sparse_frame = Inr r"
    and c: "\<forall>c \<in> set (columns (step_drop_duplicates sparse_only d1)).
              (name c \<in> set (map name (columns r)))
                = (nrows (step_drop_duplicates sparse_only d1) \<le> 2 * count (cells c)) \<and>
              (0 < nrows (step_drop_duplicates sparse_only d1) \<and>
               10 * mask_sum (isna (cells c)) = 6 * nrows (step_drop_duplicates sparse_only d1)
                 \<longrightarrow> name c \<notin> set (map name (columns r))) \<and>
              (2 * mask_sum (isna (cells c)) = nrows (step_drop_duplicates sparse_only d1)
                 \<longrightarrow> name c \<in> set (map name (columns r)))"
    using sparse_column_survives_iff_half_present [OF h1 h2] by blast
  have d1: "d1 = sparse_frame"
    using a by (simp add: step_drop_cols_def sparse_only_def no_options_def)
  have d: "step_drop_duplicates sparse_only d1 = sparse_frame"
    by (simp add: d1 step_drop_duplicates_def sparse_only_def no_options_def)
  have "''x'' \<notin> set (map name (columns r))"
    using c [unfolded d, THEN bspec, of "columns sparse_frame ! 0"]
    by (simp add: sparse_frame_def isna_def mask_sum_def count_def notna_values_def)
  moreover have "''y'' \<in> set (map name (columns r))"
    using c [unfolded d, THEN bspec, of "columns sparse_frame ! 1"]
    by (simp add: sparse_frame_def isna_def mask_sum_def count_def notna_values_def)
  ultimately show ?thesis using h1 h2 b by blast
qed



text \<open>
  C3. With the categorical-mode box ticked, take the frame that reaches that step. In a column
  that is not a number column and has a present cell, every missing cell is replaced by one value
  of highest frequency among the present cells, so no cell stays missing; when several values
  share the highest frequency the one chosen is the least of them in sort order (for strings the
  alphabetically first, for booleans False), not the one met first. A column without a present
  cell is left as it is.
\<close>

theorem mode_fill_takes_least_most_frequent:
  assumes "has_fill_categorical_mode f"
  shows "\<exists>d1 r. step_drop_cols f df = Inr d1 \<and> clean f df = Inr r \<and>
     length (columns r) = length (columns (step_fill_numeric_mean f
        (step_drop_empty_cols f (step_drop_duplicates f d1)))) \<and>
     (\<forall>i < length (columns r).
        \<not> is_number (dtype (columns (step_fill_numeric_mean f
              (step_drop_empty_cols f (step_drop_duplicates f d1))) ! i)) \<longrightarrow>
          name (columns r ! i) = name (columns (step_fill_numeric_mean f
              (step_drop_empty_cols f (step_drop_duplicates f d1))) ! i) \<and>
          (if count (cells (columns (step_fill_numeric_mean f
                 (step_drop_empty_cols f (step_drop_duplicates f d1))) ! i)) = 0
           then cells (columns r ! i) = cells (columns (step_fill_numeric_mean f
                 (step_drop_empty_cols f (step_drop_duplicates f d1))) ! i)
           else NA \<notin> set (cells (columns r ! i)) \<and>
             (\<exists>m \<in> set (notna_values (cells (columns (step_fill_numeric_mean f
                     (step_drop_empty_cols f (step_drop_duplicates f d1))) ! i))).
                cells (columns r ! i) = fillna m (cells (columns (step_fill_numeric_mean f
                     (step_drop_empty_cols f (step_drop_duplicates f d1))) ! i)) \<and>
                (\<forall>v \<in> set (notna_values (cells (columns (step_fill_numeric_mean f
                     (step_drop_empty_cols f (step_drop_duplicates f d1))) ! i))).
                   count_list (notna_values (cells (columns (step_fill_numeric_mean f
                     (step_drop_empty_cols f (step_drop_duplicates f d1))) ! i))) v
                   \<le> count_list (notna_values (cells (columns (step_fill_numeric_mean f
                     (step_drop_empty_cols f (step_drop_duplicates f d1))) ! i))) m \<and>
                   (count_list (notna_values (cells (columns (step_fill_numeric_mean f
                     (step_drop_empty_cols f (step_drop_duplicates f d1))) ! i))) v
                    = count_list (notna_values (cells (columns (step_fill_numeric_mean f
                     (step_drop_empty_cols f (step_drop_duplicates f d1))) ! i))) m \<longrightarrow>
                      (list_all is_Str (notna_values (cells (columns (step_fill_numeric_mean f
                         (step_drop_empty_cols f (step_drop_duplicates f d1))) ! i)))
                         \<longrightarrow> str_val m \<le> str_val v) \<and>
                      (list_all is_Bl (notna_values (cells (columns (step_fill_numeric_mean f
                         (step_drop_empty_cols f (step_drop_duplicates f d1))) ! i)))
                         \<longrightarrow> bool_val m \<le> bool_val v))))))"
proof -
  obtain d1 where d1: "step_drop_cols f df = Inr d1"
    using step_drop_cols_Inr by blast
  define d where "d = step_fill_numeric_mean f (step_drop_empty_cols f (step_drop_duplicates f d1))"
  define r where "r = step_fill_categorical_mode f d"
  have r: "clean f df = Inr r"
    by (simp add: clean_def d1 r_def d_def)
  have len: "length (columns r) = length (columns d)"
    by (simp add: r_def step_fill_categorical_mode_def)
  have col: "columns r ! i = fill_mode_column (columns d ! i)" if "i < length (columns r)" for i
    using assms that len by (simp add: r_def step_fill_categorical_mode_def)
  have "name (columns r ! i) = name (columns d ! i) \<and>
        (if count (cells (columns d ! i)) = 0 then cells (columns r ! i) = cells (columns d ! i)
         else NA \<notin> set (cells (columns r ! i)) \<and>
           (\<exists>m \<in> set (notna_values (cells (columns d ! i))).
              cells (columns r ! i) = fillna m (cells (columns d ! i)) \<and>
              (\<forall>v \<in> set (notna_values (cells (columns d ! i))).
                 count_list (notna_values (cells (columns d ! i))) v
                 \<le> count_list (notna_values (cells (columns d ! i))) m \<and>
                 (count_list (notna_values (cells (columns d ! i))) v
                  = count_list (notna_values (cells (columns d ! i))) m \<longrightarrow>
                    (list_all is_Str (notna_values (cells (columns d ! i)))
                       \<longrightarrow> str_val m \<le> str_val v) \<and>
                    (list_all is_Bl (notna_values (cells (columns d ! i)))
                       \<longrightarrow> bool_val m \<le> bool_val v)))))"
    if i: "i < length (columns r)" and other: "\<not> is_number (dtype (columns d ! i))" for i
  proof (cases "count (cells (columns d ! i)) = 0")
    case True
    then show ?thesis
      using fill_mode_column_other(1,2) [OF other] by (simp add: col [OF i])
  next
    case False
    let ?xs = "cells (columns d ! i)"
    obtain m ms where m: "mode ?xs = m # ms" "cells (columns r ! i) = fillna m ?xs"
      using fill_mode_column_other(3) [OF other False] by (auto simp: col [OF i])
    have in_vs: "m \<in> set (notna_values ?xs)"
      by (rule mode_head(1) [OF m(1)])
    then have "m \<noteq> NA" by (simp add: notna_values_def)
    then have "NA \<notin> set (cells (columns r ! i))"
      by (simp add: m(2) NA_notin_fillna)
    moreover have "name (columns r ! i) = name (columns d ! i)"
      using fill_mode_column_other(1) [OF other] by (simp add: col [OF i])
    ultimately show ?thesis
      using in_vs m(2) mode_head(2,3) [OF m(1)] by (simp only: False if_False) blast
  qed
  then show ?thesis
    using d1 r len unfolding d_def by blast
qed

theorem mode_fill_takes_least_most_frequent_witness:
  "has_fill_categorical_mode mode_only \<and>
   (\<exists>r. clean mode_only tie_frame = Inr r \<and> NA \<notin> set (cells (columns r ! 0)))"
proof -
  have h: "has_fill_categorical_mode mode_only"
    by (simp add: mode_only_def no_options_def)
  have pre: "step_fill_numeric_mean mode_only
      (step_drop_empty_cols mode_only (step_drop_duplicates mode_only d)) = d" for d
    by (simp add: step_fill_numeric_mean_def step_drop_empty_cols_def step_drop_duplicates_def
        mode_only_def no_options_def)
  obtain d1 r where a: "step_drop_cols mode_only tie_frame = Inr d1"
    and b: "clean mode_only tie_frame = Inr r"
    and l: "length (columns r) = length (columns d1)"
    and c: "\<forall>i < length (columns r).
        \<not> is_number (dtype (columns d1 ! i)) \<longrightarrow>
          name (columns r ! i) = name (columns d1 ! i) \<and>
          (if count (cells (columns d1 ! i)) = 0
           then cells (columns r ! i) = cells (columns d1 ! i)
           else NA \<notin> set (cells (columns r ! i)) \<and>
             (\<exists>m \<in> set (notna_values (cells (columns d1 ! i))).
                cells (columns r ! i) = fillna m (cells (columns d1 ! i)) \<and>
                (\<forall>v \<in> set (notna_values (cells (columns d1 ! i))).
                   count_list (notna_values (cells (columns d1 ! i))) v
                   \<le> count_list (notna_values (cells (columns d1 ! i))) m \<and>
                   (count_list (notna_values (cells (columns d1 ! i))) v
                    = count_list (notna_values (cells (columns d1 ! i))) m \<longrightarrow>
                      (list_all is_Str (notna_values (cells (columns d1 ! i)))
                         \<longrightarrow> str_val m \<le> str_val v) \<and>
                      (list_all is_Bl (notna_values (cells (columns d1 ! i)))
                         \<longrightarrow> bool_val m \<le> bool_val v)))))"
    using mode_fill_takes_least_most_frequent [OF h, of tie_frame] unfolding pre by blast
  have d1: "d1 = tie_frame"
    using a by (simp add: step_drop_cols_def mode_only_def no_options_def)
  have "0 < length (columns r)"
    using l by (simp add: d1 tie_frame_def)
  moreover have "\<not> is_number (dtype (columns d1 ! 0))" "count (cells (columns d1 ! 0)) \<noteq> 0"
    by (simp_all add: d1 tie_frame_def count_def notna_values_def)
  ultimately have "NA \<notin> set (cells (columns r ! 0))"
    using c [THEN spec, of 0] by simp
  then show ?thesis using h b by blast
qed

text \<open>
  C3, as the specification words it, fails: in a column holding b, a and a gap, both values are
  met once; the value met first is b, and the gap is filled with a.
\<close>

theorem mode_fill_breaks_ties_by_first_encountered_counterexample:
  "clean mode_only tie_frame =
     Inr \<lparr>nrows = 3, columns =
       [\<lparr>name = ''city'', dtype = Object, cells = [Str ''b'', Str ''a'', Str ''a'']\<rparr>]\<rparr>
   \<and> spec_mode_first_encountered [Str ''b'', Str ''a'', NA] = Some (Str ''b'')
   \<and> fillna (Str ''b'') [Str ''b'', Str ''a'', NA] \<noteq> [Str ''b'', Str ''a'', Str ''a'']"
  by (simp add: clean_def mode_only_def no_options_def tie_frame_def step_drop_cols_def step_drop_duplicates_def
      step_drop_empty_cols_def step_fill_numeric_mean_def step_fill_categorical_mode_def
      fill_mode_column_def mode_def np_sort_def most_frequent_def notna_values_def
      unique_values_def spec_mode_first_encountered_def fillna_def)

section \<open>The profile: what the specification says of it\<close>

text \<open>
  C4. For every column of a frame with at least one row, the profile reports as missing the
  number of missing cells, and as missing_pct the float64 value of
  \<^verbatim>\<open>round(missing / rows * 100, 2)\<close>: the quotient, the product with 100, and inside
  \<^verbatim>\<open>round\<close> the scaling by 100 and the division by 100 after the rounding to an integer are
  each rounded as float64 rounds. So the value is the percentage to two decimal places up to
  that rounding: 23 missing cells of 160 give the float64 next to 14.37, where the exact
  percentage 14.375 would round to 14.38. For a frame without rows missing_pct is NaN.
\<close>

theorem missing_pct_rounded_or_nan:
  assumes "wf_frame df" "i < length (columns df)"
  shows "missing (df_profile df ! i) = length (filter (\<lambda>x. x = NA) (cells (columns df ! i))) \<and>
         missing_pct (df_profile df ! i) =
           (if nrows df = 0 then NaN
            else Fin (float64_round (real_of_int (rint (float64_round (float64_round
                   (float64_round (real (missing (df_profile df ! i)) / real (nrows df))
                      * 100) * 10 ^ 2))) / 10 ^ 2)))"
proof -
  let ?xs = "cells (columns df ! i)"
  have len: "length ?xs = nrows df"
    using assms by (simp add: wf_frame_def wf_column_def list_all_length)
  have m: "missing (df_profile df ! i) = mask_sum (isna ?xs)"
    using assms(2) by (simp add: df_profile_def column_info_def)
  have p: "missing_pct (df_profile df ! i) = round_ndigits (float_times (mask_mean (isna ?xs)) 100) 2"
    using assms(2) by (simp add: df_profile_def column_info_def)
  have "(?xs = []) = (nrows df = 0)"
    using len by (metis length_0_conv)
  then have "isna ?xs = [] \<longleftrightarrow> nrows df = 0"
    by (simp add: isna_def)
  moreover have "length (isna ?xs) = nrows df"
    using len by (simp add: isna_def)
  ultimately have "mask_mean (isna ?xs) =
      (if nrows df = 0 then NaN
       else Fin (float64_round (real (mask_sum (isna ?xs)) / real (nrows df))))"
    by (simp add: mask_mean_def)
  then have "missing_pct (df_profile df ! i) =
      (if nrows df = 0 then NaN
       else Fin (float64_round (real_of_int (rint (float64_round (float64_round
              (float64_round (real (mask_sum (isna ?xs)) / real (nrows df)) * 100) * 10 ^ 2)))
            / 10 ^ 2)))"
    by (simp only: p float_times.simps round_ndigits.simps if_distrib [of "\<lambda>v. float_times v 100"]
        if_distrib [of "\<lambda>v. round_ndigits v 2"])
  moreover have "missing (df_profile df ! i) = length (filter (\<lambda>x. x = NA) ?xs)"
    by (simp only: m mask_sum_isna)
  ultimately show ?thesis
    by (simp only: m)
qed

theorem missing_pct_rounded_or_nan_witness:
  "wf_frame mostly_present_frame \<and> 0 < length (columns mostly_present_frame) \<and>
   missing (df_profile mostly_present_frame ! 0) = 23 \<and>
   missing_pct (df_profile mostly_present_frame ! 0)
     = Fin (8089590830664253 / 562949953421312) \<and>
   (1437 / 100 - 1 / 10 ^ 14 :: real) < 8089590830664253 / 562949953421312 \<and>
   (8089590830664253 / 562949953421312 :: real) < 1437 / 100"
proof -
  have h1: "wf_frame mostly_present_frame"
    by (simp add: mostly_present_frame_def wf_frame_def wf_column_def list_all_iff)
  have h2: "0 < length (columns mostly_present_frame)"
    by (simp add: mostly_present_frame_def)
  have n: "nrows mostly_present_frame = 160"
    by (simp add: mostly_present_frame_def)
  have m: "missing (df_profile mostly_present_frame ! 0) = 23"
    using missing_pct_rounded_or_nan [OF h1 h2] by (simp add: mostly_present_frame_def)
  have e: "missing_pct (df_profile mostly_present_frame ! 0) =
           (if nrows mostly_present_frame = 0 then NaN
            else Fin (float64_round (real_of_int (rint (float64_round (float64_round
                   (float64_round (real (missing (df_profile mostly_present_frame ! 0))
                      / real (nrows mostly_present_frame))
                      * 100) * 10 ^ 2))) / 10 ^ 2)))"
    using missing_pct_rounded_or_nan [OF h1 h2] by (rule conjunct2)
  have v: "float64_round (real_of_int (rint (float64_round (float64_round
             (float64_round (real 23 / real 160) * 100) * 10 ^ 2))) / 10 ^ 2)
           = 8089590830664253 / 562949953421312"
    by code_simp
  have "missing_pct (df_profile mostly_present_frame ! 0)
          = Fin (8089590830664253 / 562949953421312)"
    unfolding e m n v by simp
  then show ?thesis using h1 h2 m by simp
qed

text \<open>
  C4, as the specification words it, fails for a frame without rows: the mean of the empty mask
  is NaN, and NaN is what the profile reports, not 0.
\<close>

theorem missing_pct_zero_rows_counterexample:
  "map missing_pct (df_profile header_only_frame) = [NaN] \<and> NaN \<noteq> Fin 0"
  by (simp add: header_only_frame_def df_profile_def column_info_def isna_def mask_mean_def)

text \<open>
  C8. For a number column with fewer than two present cells the profile holds the entries of the
  numeric description, and its standard deviation is NaN, not zero.
\<close>

theorem std_undefined_below_two_values:
  assumes "i < length (columns df)" "is_number (dtype (columns df ! i))"
    "count (cells (columns df ! i)) < 2"
  shows "\<exists>d. described (df_profile df ! i) = Some (Numeric d) \<and> d_std d = NaN \<and> d_std d \<noteq> Fin 0"
proof -
  let ?c = "columns df ! i"
  have ne: "dtype ?c \<noteq> BoolT" "is_numeric_dtype (dtype ?c)"
    using assms(2) by (cases "dtype ?c"; simp)+
  have "std (cells ?c) = NaN"
    using assms(3) by (simp add: std_def count_def Let_def)
  then show ?thesis
    using assms(1) ne by (simp add: df_profile_def column_info_def describe_def Let_def)
qed

theorem std_undefined_below_two_values_witness:
  "0 < length (columns single_value_frame) \<and>
   is_number (dtype (columns single_value_frame ! 0)) \<and>
   count (cells (columns single_value_frame ! 0)) < 2 \<and>
   (\<exists>d. described (df_profile single_value_frame ! 0) = Some (Numeric d) \<and>
        d_std d = NaN \<and> d_std d \<noteq> Fin 0)"
proof -
  have h: "0 < length (columns single_value_frame)"
    "is_number (dtype (columns single_value_frame ! 0))"
    "count (cells (columns single_value_frame ! 0)) < 2"
    by (simp_all add: single_value_frame_def count_def notna_values_def)
  show ?thesis
    using h std_undefined_below_two_values [OF h] by blast
qed

text \<open>
  C10. In the duplicates entry of the profile missing cells count as equal to each other: in a
  column with at least one missing cell, all missing cells but the first are marked by
  \<open>duplicated\<close>, and when the present cells are pairwise different the entry is the number of
  missing cells less one.
\<close>

theorem missing_cells_count_as_duplicates:
  assumes "0 < missing (column_info s)"
  shows "mask_sum (map2 (\<lambda>x d. x = NA \<and> d) (cells s) (duplicated (cells s)))
           = missing (column_info s) - 1 \<and>
         (distinct (notna_values (cells s))
            \<longrightarrow> duplicates (column_info s) = missing (column_info s) - 1)"
proof -
  let ?xs = "cells s"
  have k: "missing (column_info s) = mask_sum (isna ?xs)"
    by (simp add: column_info_def)
  have a: "mask_sum (map2 (\<lambda>x d. x = NA \<and> d) ?xs (duplicated ?xs)) = mask_sum (isna ?xs) - 1"
    using missing_marked_from [of ?xs "[]"] by (simp add: duplicated_def)
  have b: "duplicates (column_info s) = mask_sum (isna ?xs) - 1"
    if d: "distinct (notna_values ?xs)"
  proof -
    have "filter (\<lambda>x. x = NA) ?xs \<noteq> []"
      using assms k by (simp add: mask_sum_isna)
    then have "NA \<in> set ?xs"
      by (auto simp: filter_empty_conv)
    then have "card (set ?xs) = Suc (count ?xs)"
      using d by (rule card_set_with_missing)
    then have "mask_sum (duplicated ?xs) + Suc (count ?xs) = count ?xs + mask_sum (isna ?xs)"
      using mask_sum_duplicated [of ?xs] count_plus_missing [of ?xs] by simp
    then show ?thesis by (simp add: column_info_def)
  qed
  show ?thesis using a b k by simp
qed

theorem missing_cells_count_as_duplicates_witness:
  "0 < missing (column_info gaps_column) \<and> distinct (notna_values (cells gaps_column)) \<and>
   missing (column_info gaps_column) = 3 \<and> duplicates (column_info gaps_column) = 2"
proof -
  have m: "missing (column_info gaps_column) = 3"
    by (simp add: column_info_def gaps_column_def isna_def mask_sum_def)
  have h: "0 < missing (column_info gaps_column)"
    by (simp add: m)
  have d: "distinct (notna_values (cells gaps_column))"
    by (simp add: gaps_column_def notna_values_def)
  have "duplicates (column_info gaps_column) = 2"
    using missing_cells_count_as_duplicates [OF h] d m by simp
  then show ?thesis using h d m by blast
qed

text \<open>
  C7. The correlation picture is produced if and only if the frame has two or more number
  columns; with fewer there is none.
\<close>

theorem correlation_iff_two_number_columns:
  "(correlation_heatmap render df \<noteq> None) =
     (2 \<le> length (filter (\<lambda>c. is_number (dtype c)) (columns df)))"
  by (simp add: correlation_heatmap_def select_dtypes_include_number_def Let_def not_less)

theorem correlation_iff_two_number_columns_witness:
  "correlation_heatmap (\<lambda>d. map name (columns d)) three_number_frame \<noteq> None \<and>
   correlation_heatmap (\<lambda>d. map name (columns d)) tie_frame = None"
  using correlation_iff_two_number_columns [of "\<lambda>d. map name (columns d)" three_number_frame]
    correlation_iff_two_number_columns [of "\<lambda>d. map name (columns d)" tie_frame]
  by (simp add: three_number_frame_def tie_frame_def)

end
